theory Spec2Isabelle
  imports Main "HOL-Library.Sublist" "HOL-Library.Multiset"
begin

section \<open>Bulk student-ID generator (id\_gen.py): the per-row processing loop\<close>

text \<open>
  The script reads a CSV roster row by row. For every row that is not the header and
  has a photo cell, it reads the photo, renders a Code128 barcode, fills both SVG
  templates by chained \<^verbatim>\<open>str.replace\<close>, renders both to PDF files under
  \<^verbatim>\<open><out>/tmp\<close>, and merges the two PDFs into \<^verbatim>\<open><out>/<id>.pdf\<close>.

  Strings and file contents are \<^typ>\<open>string\<close>. The rows that \<^verbatim>\<open>csv.reader\<close>
  yields are lists of strings of any length. An uncaught Python exception ends the
  run; it is the outcome \<open>Raised\<close> of a row and the \<open>Some\<close> result of the loop.
\<close>

subsection \<open>Python string and path primitives\<close>

text \<open>
  \<^verbatim>\<open>s.replace(old, new)\<close>: scanning from the left, every non-overlapping occurrence
  of \<open>old\<close> is replaced by \<open>new\<close>; the inserted text is not scanned again. With an
  empty \<open>old\<close>, Python inserts \<open>new\<close> before every character and at the end.
\<close>

function str_replace :: "string \<Rightarrow> string \<Rightarrow> string \<Rightarrow> string" where
  "str_replace [] old new = (if old = [] then new else [])"
| "str_replace (c # cs) old new =
     (if old = [] then new @ c # str_replace cs old new
      else if prefix old (c # cs) then new @ str_replace (drop (length old) (c # cs)) old new
      else c # str_replace cs old new)"
  by pat_completeness auto
termination
  by (relation "measure (\<lambda>(s, old, new). length s)") auto

text \<open>\<^verbatim>\<open>sep.join(xs)\<close>.\<close>

fun str_join :: "string \<Rightarrow> string list \<Rightarrow> string" where
  "str_join sep [] = []"
| "str_join sep [x] = x"
| "str_join sep (x # y # ys) = x @ sep @ str_join sep (y # ys)"

text \<open>
  \<^verbatim>\<open>os.path.join(a, *p)\<close> on POSIX: a component that starts with \<^verbatim>\<open>/\<close> discards
  what was joined before it; otherwise it is appended, after a \<^verbatim>\<open>/\<close> unless the
  path so far is empty or already ends with one.
\<close>

definition join_step :: "string \<Rightarrow> string \<Rightarrow> string" where
  "join_step path b =
     (if prefix ''/'' b then b
      else if path = [] \<or> suffix ''/'' path then path @ b
      else path @ ''/'' @ b)"

definition os_path_join :: "string \<Rightarrow> string list \<Rightarrow> string" where
  "os_path_join a p = foldl join_step a p"

subsection \<open>Configuration, external libraries, and the world\<close>

text \<open>The values the script holds in globals when the loop starts.\<close>

record config =
  template_front :: string
  template_back :: string
  images_path :: string
  output_path :: string
  debug :: bool

datatype error =
    IndexError
  | FileNotFoundError
  | OSError
  | BarcodeError
  | SvgError
  | PdfReadError

type_synonym page = string

text \<open>
  The third-party functions the loop calls (base64, python-barcode, CairoSVG, PyPDF2)
  are not part of the repository; they are parameters of the model. As HOL functions
  they return the same result for the same argument, so nothing proved here says
  that the libraries themselves are deterministic.
  \<^item> \<open>b64text bs\<close> is \<^verbatim>\<open>str(base64.b64encode(bs))[2:-1]\<close>;
  \<^item> \<open>code128_render s\<close> is
    \<^verbatim>\<open>barcode.get_barcode_class('code128')(s).render(writer_options={...})\<close>;
  \<^item> \<open>svg2png svg\<close> is \<^verbatim>\<open>cairosvg.svg2png(bytestring=svg, scale=10)\<close>;
  \<^item> \<open>svg2pdf svg\<close> is the document \<^verbatim>\<open>cairosvg.svg2pdf(bytestring=svg,
    parent_width=323, parent_height=204)\<close> writes;
  \<^item> \<open>pdf_read bs\<close> is the page list PyPDF2 reads from a PDF file, \<open>pdf_write ps\<close> the
    file it writes for a page list.
\<close>

record lib =
  b64text :: "string \<Rightarrow> string"
  code128_render :: "string \<Rightarrow> error + string"
  svg2png :: "string \<Rightarrow> error + string"
  svg2pdf :: "string \<Rightarrow> error + string"
  pdf_read :: "string \<Rightarrow> error + page list"
  pdf_write :: "page list \<Rightarrow> string"

text \<open>
  The world the loop acts on: the files by path, the paths that can be opened for
  writing, the lines printed, and the log of every file the run opened.
\<close>

datatype event = Read string | Write string

record world =
  files :: "string \<rightharpoonup> string"
  writable :: "string \<Rightarrow> bool"
  stdout :: "string list"
  io_log :: "event list"

definition print :: "string \<Rightarrow> world \<Rightarrow> world" where
  "print s w = w\<lparr>stdout := stdout w @ [s]\<rparr>"

definition debug_print :: "config \<Rightarrow> string \<Rightarrow> world \<Rightarrow> world" where
  "debug_print cfg s w = (if debug cfg then print s w else w)"

text \<open>\<^verbatim>\<open>open(p, 'rb').read()\<close>: raises when the file is not there.\<close>

definition read_file :: "string \<Rightarrow> world \<Rightarrow> (error + string) \<times> world" where
  "read_file p w =
     ((case files w p of None \<Rightarrow> Inl FileNotFoundError | Some bs \<Rightarrow> Inr bs),
      w\<lparr>io_log := io_log w @ [Read p]\<rparr>)"

text \<open>Opening \<open>p\<close> for writing and writing \<open>bs\<close>: replaces whatever the file held.\<close>

definition write_file :: "string \<Rightarrow> string \<Rightarrow> world \<Rightarrow> error option \<times> world" where
  "write_file p bs w =
     (if writable w p
      then (None, w\<lparr>files := (files w)(p \<mapsto> bs), io_log := io_log w @ [Write p]\<rparr>)
      else (Some OSError, w\<lparr>io_log := io_log w @ [Write p]\<rparr>))"

subsection \<open>The steps of one row\<close>

definition header :: "string list" where
  "header = [''First'', ''Last'', ''Year'', ''ID Number'', ''Photo Number'']"

definition photo_path :: "config \<Rightarrow> string \<Rightarrow> string \<Rightarrow> string" where
  "photo_path cfg year photo = os_path_join (images_path cfg) [year, photo @ ''.jpg'']"

definition front_path :: "config \<Rightarrow> string \<Rightarrow> string" where
  "front_path cfg idn = os_path_join (output_path cfg) [''tmp'', idn @ ''-front.pdf'']"

definition back_path :: "config \<Rightarrow> string \<Rightarrow> string" where
  "back_path cfg idn = os_path_join (output_path cfg) [''tmp'', idn @ ''-back.pdf'']"

definition out_path :: "config \<Rightarrow> string \<Rightarrow> string" where
  "out_path cfg idn = os_path_join (output_path cfg) [idn @ ''.pdf'']"

text \<open>Lines 179-190: the barcode of the identifier, as inline image text.\<close>

definition id_barcode :: "lib \<Rightarrow> string \<Rightarrow> error + string" where
  "id_barcode lib idn =
     (case code128_render lib idn of
        Inl e \<Rightarrow> Inl e
      | Inr svg \<Rightarrow>
          (case svg2png lib svg of
             Inl e \<Rightarrow> Inl e
           | Inr png \<Rightarrow> Inr (b64text lib png)))"

text \<open>Lines 203-206 and 210-211: the templates filled by chained replacement.\<close>

definition id_front :: "config \<Rightarrow> string \<Rightarrow> string \<Rightarrow> string \<Rightarrow> string \<Rightarrow> string \<Rightarrow> string" where
  "id_front cfg first_name last_name year idn image_str =
     str_replace
       (str_replace
          (str_replace
             (str_replace (template_front cfg) ''<!-- NAME -->'' (first_name @ '' '' @ last_name))
             ''<!-- YEAR -->'' year)
          ''<!-- ID -->'' idn)
       ''<!-- PHOTO -->'' image_str"

definition id_back :: "config \<Rightarrow> string \<Rightarrow> string" where
  "id_back cfg barcode = str_replace (template_back cfg) ''<!-- BARCODE -->'' barcode"

text \<open>
  Lines 227-238: both sides rendered to PDF files in the tmp directory. The model
  keeps two simplifications of CairoSVG here: the document is taken to depend on the
  markup alone (a real PDF also carries a creation date), and a conversion that
  raises is taken to leave its file as it was (the real call may have opened and
  emptied it first). Nothing below compares two conversions of the same markup or
  reads a file after a failed conversion.
\<close>

definition render_pdfs ::
  "lib \<Rightarrow> config \<Rightarrow> string \<Rightarrow> string \<Rightarrow> string \<Rightarrow> world \<Rightarrow> error option \<times> world" where
  "render_pdfs lib cfg idn front_svg back_svg w =
     (case svg2pdf lib front_svg of
        Inl e \<Rightarrow> (Some e, w)
      | Inr fdoc \<Rightarrow>
          (case write_file (front_path cfg idn) fdoc w of
             (Some e, w1) \<Rightarrow> (Some e, w1)
           | (None, w1) \<Rightarrow>
               (case svg2pdf lib back_svg of
                  Inl e \<Rightarrow> (Some e, w1)
                | Inr bdoc \<Rightarrow> write_file (back_path cfg idn) bdoc w1)))"

text \<open>
  \<^verbatim>\<open>merger.append(path)\<close>: the pages of the PDF file at \<open>path\<close> are added after the
  pages the merger already holds.
\<close>

definition merger_append :: "lib \<Rightarrow> string \<Rightarrow> page list \<Rightarrow> world \<Rightarrow> (error + page list) \<times> world" where
  "merger_append lib path merger w =
     (case read_file path w of
        (Inl e, w1) \<Rightarrow> (Inl e, w1)
      | (Inr bs, w1) \<Rightarrow>
          (case pdf_read lib bs of
             Inl e \<Rightarrow> (Inl e, w1)
           | Inr ps \<Rightarrow> (Inr (merger @ ps), w1)))"

text \<open>Lines 243-255: a fresh merger, the front appended, then the back, then written.\<close>

definition merge_pdfs :: "lib \<Rightarrow> config \<Rightarrow> string \<Rightarrow> world \<Rightarrow> error option \<times> world" where
  "merge_pdfs lib cfg idn w =
     (case merger_append lib (front_path cfg idn) [] w of
        (Inl e, w1) \<Rightarrow> (Some e, w1)
      | (Inr m1, w1) \<Rightarrow>
          (case merger_append lib (back_path cfg idn) m1 w1 of
             (Inl e, w2) \<Rightarrow> (Some e, w2)
           | (Inr m2, w2) \<Rightarrow> write_file (out_path cfg idn) (pdf_write lib m2) w2))"

datatype outcome = HeaderRow | Skipped | Produced | Raised error

text \<open>
  Lines 140-255, the body of the loop for one row. \<^verbatim>\<open>row[4]\<close> is the first index the
  body reads, and it raises \<^verbatim>\<open>IndexError\<close> on a row of fewer than five cells; every
  later index is at most 4.
\<close>

definition process_row :: "lib \<Rightarrow> config \<Rightarrow> world \<Rightarrow> string list \<Rightarrow> outcome \<times> world" where
  "process_row lib cfg w row =
     (let w1 = debug_print cfg (str_join '', '' row) w in
      if row = header then (HeaderRow, w1)
      else if length row \<le> 4 then (Raised IndexError, w1)
      else if row ! 4 = [] then
        (Skipped,
         print (''Student '' @ row ! 0 @ '' '' @ row ! 1 @ '' does not have a photo. Skipping...'') w1)
      else
        (case read_file (photo_path cfg (row ! 2) (row ! 4)) w1 of
           (Inl e, w2) \<Rightarrow> (Raised e, w2)
         | (Inr photo, w2) \<Rightarrow>
             (let image_str = b64text lib photo in
              case id_barcode lib (row ! 3) of
                Inl e \<Rightarrow> (Raised e, w2)
              | Inr barcode \<Rightarrow>
                  (let w3 = debug_print cfg barcode
                              (debug_print cfg (''Barcode of id '' @ row ! 3 @ '':'') w2);
                       front_svg = id_front cfg (row ! 0) (row ! 1) (row ! 2) (row ! 3) image_str;
                       back_svg = id_back cfg barcode;
                       w4 = debug_print cfg back_svg
                              (debug_print cfg ''ID Back:''
                                 (debug_print cfg front_svg
                                    (debug_print cfg ''ID Front:'' w3)))
                   in case render_pdfs lib cfg (row ! 3) front_svg back_svg w4 of
                        (Some e, w5) \<Rightarrow> (Raised e, w5)
                      | (None, w5) \<Rightarrow>
                          (case merge_pdfs lib cfg (row ! 3) w5 of
                             (Some e, w6) \<Rightarrow> (Raised e, w6)
                           | (None, w6) \<Rightarrow> (Produced, w6))))))"

text \<open>
  Lines 130 and 258: the loop over the rows, and the closing line. The first row that
  raises ends the run; the rows after it are never looked at.
\<close>

fun process_rows :: "lib \<Rightarrow> config \<Rightarrow> world \<Rightarrow> string list list \<Rightarrow> error option \<times> world" where
  "process_rows lib cfg w [] = (None, w)"
| "process_rows lib cfg w (row # rows) =
     (case process_row lib cfg w row of
        (Raised e, w1) \<Rightarrow> (Some e, w1)
      | (_, w1) \<Rightarrow> process_rows lib cfg w1 rows)"

definition run :: "lib \<Rightarrow> config \<Rightarrow> world \<Rightarrow> string list list \<Rightarrow> error option \<times> world" where
  "run lib cfg w rows =
     (case process_rows lib cfg w rows of
        (Some e, w1) \<Rightarrow> (Some e, w1)
      | (None, w1) \<Rightarrow> (None, print (CHR 0x0A # ''Done.'') w1))"

subsection \<open>Rendering as the specification reads it\<close>

text \<open>
  The specification describes rendering as one pass: every occurrence of a
  recognised token in the markup is replaced by the token's value, and the text
  outside the occurrences stays as it is. \<open>render tvs s\<close> is that pass for the
  token-value pairs \<open>tvs\<close>: scanning \<open>s\<close> from the left, a token that starts at the
  current position is replaced by its value and the scan goes on behind the token;
  any other character is copied. The values are never scanned.
\<close>

fun lookup_prefix :: "(string \<times> string) list \<Rightarrow> string \<Rightarrow> (string \<times> string) option" where
  "lookup_prefix [] s = None"
| "lookup_prefix ((t, v) # tvs) s =
     (if t \<noteq> [] \<and> prefix t s then Some (t, v) else lookup_prefix tvs s)"

lemma lookup_prefix_Some:
  "lookup_prefix tvs s = Some (t, v) \<Longrightarrow> (t, v) \<in> set tvs \<and> t \<noteq> [] \<and> prefix t s"
  by (induction tvs) (auto split: if_splits)

function render :: "(string \<times> string) list \<Rightarrow> string \<Rightarrow> string" where
  "render tvs [] = []"
| "render tvs (c # cs) =
     (case lookup_prefix tvs (c # cs) of
        Some (t, v) \<Rightarrow> v @ render tvs (drop (length t) (c # cs))
      | None \<Rightarrow> c # render tvs cs)"
  by pat_completeness auto
termination
proof (relation "measure (\<lambda>(tvs, s). length s)")
  fix tvs :: "(string \<times> string) list" and c cs x t v
  assume "lookup_prefix tvs (c # cs) = Some x" and "(t, v) = x"
  then have "t \<noteq> []" using lookup_prefix_Some [of tvs "c # cs" t v] by simp
  then show "((tvs, drop (length t) (c # cs)), (tvs, c # cs)) \<in> measure (\<lambda>(tvs, s). length s)"
    by (cases t) auto
qed simp_all

text \<open>
  The chain of \<^verbatim>\<open>replace\<close> calls the script makes, for any order of the pairs.
\<close>

definition replace_in_order :: "(string \<times> string) list \<Rightarrow> string \<Rightarrow> string" where
  "replace_in_order tvs s = foldl (\<lambda>s (t, v). str_replace s t v) s tvs"

text \<open>
  A placeholder token starts with \<^verbatim>\<open><\<close> and has no other \<^verbatim>\<open><\<close>. A markup is
  \<open>unbroken\<close> when it nowhere holds a started but unfinished token directly followed
  by a token, as in \<^verbatim>\<open><!-- <!-- NAME -->\<close>: there a value could complete the unfinished
  token.
\<close>

definition token_shaped :: "string \<Rightarrow> bool" where
  "token_shaped t = (case t of [] \<Rightarrow> False | c # r \<Rightarrow> c = CHR ''<'' \<and> CHR ''<'' \<notin> set r)"

definition unbroken :: "string list \<Rightarrow> string \<Rightarrow> bool" where
  "unbroken toks s =
     (\<forall>t \<in> set toks. \<forall>t' \<in> set toks. \<forall>p \<in> set (prefixes t).
        p \<noteq> [] \<and> p \<noteq> t \<longrightarrow> \<not> sublist (p @ t') s)"

text \<open>The tokens of the front template and the values the script gives them.\<close>

definition front_tokens :: "string list" where
  "front_tokens = [''<!-- NAME -->'', ''<!-- YEAR -->'', ''<!-- ID -->'', ''<!-- PHOTO -->'']"

definition front_values ::
  "string \<Rightarrow> string \<Rightarrow> string \<Rightarrow> string \<Rightarrow> string \<Rightarrow> (string \<times> string) list" where
  "front_values first_name last_name year idn image_str =
     [(''<!-- NAME -->'', first_name @ '' '' @ last_name),
      (''<!-- YEAR -->'', year),
      (''<!-- ID -->'', idn),
      (''<!-- PHOTO -->'', image_str)]"

text \<open>No token of the list is a prefix of another, and each has one value.\<close>

definition apart :: "(string \<times> string) list \<Rightarrow> bool" where
  "apart tvs = (\<forall>x \<in> set tvs. \<forall>y \<in> set tvs. prefix (fst x) (fst y) \<longrightarrow> x = y)"

subsection \<open>Concrete inputs\<close>

text \<open>
  A small instance on which the definitions evaluate: libraries that succeed on
  every input but the empty identifier, templates that hold every placeholder, and a
  world with one photo; then a second row with the identifier of the first, the
  world after the first row, a template without placeholders and one with a single
  placeholder.
\<close>

definition test_lib :: lib where
  "test_lib = \<lparr>b64text = (\<lambda>bs. bs),
      code128_render = (\<lambda>s. if s = [] then Inl BarcodeError else Inr (''|'' @ s @ ''|'')),
      svg2png = (\<lambda>svg. Inr svg),
      svg2pdf = (\<lambda>svg. Inr svg),
      pdf_read = (\<lambda>bs. Inr [bs]),
      pdf_write = concat\<rparr>"

definition test_config :: config where
  "test_config = \<lparr>template_front = ''<!-- NAME -->,<!-- YEAR -->,<!-- ID -->,<!-- PHOTO -->'',
      template_back = ''[<!-- BARCODE -->]'',
      images_path = ''images'', output_path = ''out'', debug = False\<rparr>"

definition test_world :: world where
  "test_world = \<lparr>files = [''images/2099/p1.jpg'' \<mapsto> ''JPEG''], writable = (\<lambda>p. True),
      stdout = [], io_log = []\<rparr>"

definition ada :: "string list" where
  "ada = [''Ada'', ''Lovelace'', ''2099'', ''S1001'', ''p1'']"

definition ghost :: "string list" where
  "ghost = [''Grace'', ''Hopper'', ''2099'', ''S1002'', ''p2'']"

definition alan :: "string list" where
  "alan = [''Alan'', ''Turing'', ''2099'', ''S1001'', ''p1'']"

definition ada_world :: world where
  "ada_world = snd (process_row test_lib test_config test_world ada)"

definition plain_config :: config where
  "plain_config = test_config\<lparr>template_front := ''<svg/>'', template_back := ''<svg/>''\<rparr>"

definition collide_config :: config where
  "collide_config = test_config\<lparr>template_front := ''Hello <!-- NAME -->''\<rparr>"

section \<open>Properties\<close>

subsection \<open>The world after each primitive\<close>

lemma print_fields [simp]:
  "files (print s w) = files w"
  "writable (print s w) = writable w"
  "io_log (print s w) = io_log w"
  "stdout (print s w) = stdout w @ [s]"
  by (simp_all add: print_def)

lemma debug_print_fields [simp]:
  "files (debug_print cfg s w) = files w"
  "writable (debug_print cfg s w) = writable w"
  "io_log (debug_print cfg s w) = io_log w"
  by (simp_all add: debug_print_def)

lemma write_file_None:
  "write_file p bs w = (None, w') \<Longrightarrow>
   writable w p \<and> w' = w\<lparr>files := (files w)(p \<mapsto> bs), io_log := io_log w @ [Write p]\<rparr>"
  by (auto simp: write_file_def split: if_splits)

lemma write_file_log_mono: "prefix (io_log w) (io_log (snd (write_file p bs w)))"
  by (simp add: write_file_def)

subsection \<open>The three output paths of one identifier are distinct\<close>

lemma join_step_rel:
  "\<not> prefix ''/'' b \<Longrightarrow> join_step path b = path @ b \<or> join_step path b = path @ ''/'' @ b"
  by (simp add: join_step_def)

lemma join_step_abs: "prefix ''/'' b \<Longrightarrow> join_step path b = b"
  by (simp add: join_step_def)

lemma tmp_dir: "join_step out ''tmp'' = out @ ''tmp'' \<or> join_step out ''tmp'' = out @ ''/tmp''"
  by (simp add: join_step_def)

lemma not_suffix_slash_tmp: "\<not> suffix ''/'' (join_step out ''tmp'')"
  using tmp_dir [of out] by (auto simp: suffix_def)

lemma tmp_file_rel:
  "\<not> prefix ''/'' b \<Longrightarrow> join_step (join_step out ''tmp'') b = join_step out ''tmp'' @ ''/'' @ b"
  using tmp_dir [of out] not_suffix_slash_tmp [of out] by (auto simp add: join_step_def)

lemma prefix_slash_append:
  "prefix ''/'' (idn @ c # cs) = (prefix ''/'' idn \<or> idn = [] \<and> c = CHR ''/'')"
  by (cases idn) auto

lemma front_back_length: "length (front_path cfg idn) = Suc (length (back_path cfg idn))"
proof (cases "prefix ''/'' idn")
  case True
  then show ?thesis
    by (simp add: front_path_def back_path_def os_path_join_def join_step_abs prefix_slash_append)
next
  case False
  then show ?thesis
    by (simp add: front_path_def back_path_def os_path_join_def tmp_file_rel prefix_slash_append)
qed

lemma out_back_length: "length (out_path cfg idn) < length (back_path cfg idn)"
proof (cases "prefix ''/'' idn")
  case True
  then show ?thesis
    by (simp add: out_path_def back_path_def os_path_join_def join_step_abs prefix_slash_append)
next
  case False
  then show ?thesis
    using tmp_dir [of "output_path cfg"] join_step_rel [of "idn @ ''.pdf''" "output_path cfg"]
    by (auto simp add: out_path_def back_path_def os_path_join_def tmp_file_rel prefix_slash_append)
qed

lemma paths_distinct:
  "front_path cfg idn \<noteq> back_path cfg idn"
  "back_path cfg idn \<noteq> front_path cfg idn"
  "out_path cfg idn \<noteq> back_path cfg idn"
  "out_path cfg idn \<noteq> front_path cfg idn"
  "back_path cfg idn \<noteq> out_path cfg idn"
  "front_path cfg idn \<noteq> out_path cfg idn"
  using front_back_length [of cfg idn] out_back_length [of cfg idn]
  by (metis n_not_Suc_n, metis n_not_Suc_n, metis less_irrefl, metis less_Suc_eq less_irrefl,
      metis less_irrefl, metis less_Suc_eq less_irrefl)

lemma photo_path_plain:
  assumes "images_path cfg \<noteq> []" "\<not> suffix ''/'' (images_path cfg)"
    and "year \<noteq> []" "\<not> prefix ''/'' year" "\<not> suffix ''/'' year" "\<not> prefix ''/'' photo"
  shows "photo_path cfg year photo = images_path cfg @ ''/'' @ year @ ''/'' @ photo @ ''.jpg''"
proof -
  have a: "\<not> prefix ''/'' (photo @ ''.jpg'')" using assms(6) by (simp add: prefix_slash_append)
  have b: "\<not> suffix ''/'' (images_path cfg @ ''/'' @ year)"
    using assms(3,5) by (auto simp: suffix_def append_eq_append_conv2 Cons_eq_append_conv append_eq_Cons_conv)
  show ?thesis using assms a b by (simp add: photo_path_def os_path_join_def join_step_def)
qed

subsection \<open>What a completed row has done\<close>

lemma render_pdfs_None:
  assumes "render_pdfs lib cfg idn f b w = (None, w')"
  shows "\<exists>fdoc bdoc. svg2pdf lib f = Inr fdoc \<and> svg2pdf lib b = Inr bdoc \<and>
           writable w (front_path cfg idn) \<and> writable w (back_path cfg idn) \<and>
           w' = w\<lparr>files := (files w)(front_path cfg idn \<mapsto> fdoc, back_path cfg idn \<mapsto> bdoc),
                   io_log := io_log w @ [Write (front_path cfg idn), Write (back_path cfg idn)]\<rparr>"
  using assms
  by (auto simp: render_pdfs_def split: sum.splits prod.splits option.splits dest!: write_file_None)

lemma merger_append_Inr:
  assumes "merger_append lib p m w = (Inr m', w')"
  shows "\<exists>bs ps. files w p = Some bs \<and> pdf_read lib bs = Inr ps \<and> m' = m @ ps \<and>
           w' = w\<lparr>io_log := io_log w @ [Read p]\<rparr>"
  using assms
  by (auto simp: merger_append_def read_file_def split: sum.splits prod.splits option.splits)

lemma merge_pdfs_None:
  assumes "merge_pdfs lib cfg idn w = (None, w')"
  shows "\<exists>fdoc bdoc pf pb. files w (front_path cfg idn) = Some fdoc \<and> pdf_read lib fdoc = Inr pf \<and>
           files w (back_path cfg idn) = Some bdoc \<and> pdf_read lib bdoc = Inr pb \<and>
           writable w (out_path cfg idn) \<and>
           w' = w\<lparr>files := (files w)(out_path cfg idn \<mapsto> pdf_write lib (pf @ pb)),
                   io_log := io_log w @ [Read (front_path cfg idn), Read (back_path cfg idn),
                                          Write (out_path cfg idn)]\<rparr>"
  using assms
  by (auto simp: merge_pdfs_def split: sum.splits prod.splits option.splits
      dest!: write_file_None merger_append_Inr)

lemma process_row_Produced:
  assumes "process_row lib cfg w row = (Produced, w')"
  shows "\<exists>photo barcode fdoc bdoc pf pb.
    5 \<le> length row \<and> row \<noteq> header \<and> row ! 4 \<noteq> [] \<and>
    files w (photo_path cfg (row ! 2) (row ! 4)) = Some photo \<and>
    id_barcode lib (row ! 3) = Inr barcode \<and>
    svg2pdf lib (id_front cfg (row ! 0) (row ! 1) (row ! 2) (row ! 3) (b64text lib photo)) = Inr fdoc \<and>
    svg2pdf lib (id_back cfg barcode) = Inr bdoc \<and>
    pdf_read lib fdoc = Inr pf \<and> pdf_read lib bdoc = Inr pb \<and>
    files w' = (files w)(front_path cfg (row ! 3) \<mapsto> fdoc, back_path cfg (row ! 3) \<mapsto> bdoc,
                         out_path cfg (row ! 3) \<mapsto> pdf_write lib (pf @ pb)) \<and>
    io_log w' = io_log w @
      [Read (photo_path cfg (row ! 2) (row ! 4)),
       Write (front_path cfg (row ! 3)), Write (back_path cfg (row ! 3)),
       Read (front_path cfg (row ! 3)), Read (back_path cfg (row ! 3)),
       Write (out_path cfg (row ! 3))]"
  using assms
  unfolding process_row_def Let_def
  by (auto simp: read_file_def paths_distinct split: if_splits sum.splits prod.splits option.splits
      dest!: render_pdfs_None merge_pdfs_None)

lemma process_row_writable: "writable (snd (process_row lib cfg w row)) = writable w"
  unfolding process_row_def Let_def
  by (auto simp: read_file_def render_pdfs_def merge_pdfs_def merger_append_def write_file_def
      split: if_splits sum.splits prod.splits option.splits)

lemma process_row_Produced_writable:
  assumes "process_row lib cfg w row = (Produced, w')"
  shows "writable w (front_path cfg (row ! 3)) \<and> writable w (back_path cfg (row ! 3)) \<and>
         writable w (out_path cfg (row ! 3))"
  using assms
  unfolding process_row_def Let_def
  by (auto simp: read_file_def split: if_splits sum.splits prod.splits option.splits
      dest!: render_pdfs_None merge_pdfs_None)

text \<open>Conversely, a row completes as soon as every step it takes succeeds.\<close>

lemma process_row_ProducedI:
  assumes "5 \<le> length row" "row \<noteq> header" "row ! 4 \<noteq> []"
    and "files w (photo_path cfg (row ! 2) (row ! 4)) = Some photo"
    and "id_barcode lib (row ! 3) = Inr barcode"
    and "svg2pdf lib (id_front cfg (row ! 0) (row ! 1) (row ! 2) (row ! 3) (b64text lib photo)) = Inr fdoc"
    and "svg2pdf lib (id_back cfg barcode) = Inr bdoc"
    and "pdf_read lib fdoc = Inr pf" "pdf_read lib bdoc = Inr pb"
    and "writable w (front_path cfg (row ! 3))" "writable w (back_path cfg (row ! 3))"
        "writable w (out_path cfg (row ! 3))"
  shows "\<exists>w'. process_row lib cfg w row = (Produced, w') \<and>
           files w' = (files w)(front_path cfg (row ! 3) \<mapsto> fdoc, back_path cfg (row ! 3) \<mapsto> bdoc,
                         out_path cfg (row ! 3) \<mapsto> pdf_write lib (pf @ pb))"
  using assms
  unfolding process_row_def Let_def
  by (simp add: read_file_def render_pdfs_def merge_pdfs_def merger_append_def write_file_def
      paths_distinct)

subsection \<open>The header, and rows that fail\<close>

lemma process_row_HeaderRow: "fst (process_row lib cfg w row) = HeaderRow \<Longrightarrow> row = header"
  by (auto simp: process_row_def Let_def read_file_def
      split: if_splits sum.splits option.splits prod.splits)

lemma process_rows_append:
  "process_rows lib cfg w pre = (None, w1) \<Longrightarrow>
   process_rows lib cfg w (pre @ rows) = process_rows lib cfg w1 rows"
proof (induction pre arbitrary: w)
  case Nil
  then show ?case by simp
next
  case (Cons r pre)
  obtain out wr where r: "process_row lib cfg w r = (out, wr)"
    by (cases "process_row lib cfg w r")
  show ?case
  proof (cases out)
    case (Raised e)
    with Cons.prems r show ?thesis by simp
  qed (use Cons r in \<open>simp_all\<close>)
qed

lemma missing_photo_raises:
  assumes "5 \<le> length row" "row \<noteq> header" "row ! 4 \<noteq> []"
    and "files w (photo_path cfg (row ! 2) (row ! 4)) = None"
  shows "\<exists>w'. process_row lib cfg w row = (Raised FileNotFoundError, w') \<and> files w' = files w \<and>
           io_log w' = io_log w @ [Read (photo_path cfg (row ! 2) (row ! 4))]"
  using assms by (simp add: process_row_def Let_def read_file_def)

subsection \<open>The I/O log only grows\<close>

lemma render_pdfs_log_mono: "prefix (io_log w) (io_log (snd (render_pdfs lib cfg idn f b w)))"
  by (auto simp: render_pdfs_def write_file_def split: sum.splits option.splits prod.splits if_splits)

lemma merger_append_log_mono: "prefix (io_log w) (io_log (snd (merger_append lib p m w)))"
  by (auto simp: merger_append_def read_file_def split: sum.splits option.splits prod.splits)

lemma merge_pdfs_log_mono: "prefix (io_log w) (io_log (snd (merge_pdfs lib cfg idn w)))"
proof -
  obtain r1 w1 where a: "merger_append lib (front_path cfg idn) [] w = (r1, w1)"
    by (cases "merger_append lib (front_path cfg idn) [] w")
  have p1: "prefix (io_log w) (io_log w1)"
    using merger_append_log_mono [of w lib "front_path cfg idn" "[]"] a by simp
  show ?thesis
  proof (cases r1)
    case (Inl e)
    with a p1 show ?thesis by (simp add: merge_pdfs_def)
  next
    case (Inr m1)
    obtain r2 w2 where b: "merger_append lib (back_path cfg idn) m1 w1 = (r2, w2)"
      by (cases "merger_append lib (back_path cfg idn) m1 w1")
    have p2: "prefix (io_log w1) (io_log w2)"
      using merger_append_log_mono [of w1 lib "back_path cfg idn" m1] b by simp
    show ?thesis
    proof (cases r2)
      case (Inl e)
      with a b Inr p1 p2 show ?thesis by (auto simp add: merge_pdfs_def)
    next
      case (Inr m2)
      have "prefix (io_log w2) (io_log (snd (write_file (out_path cfg idn) (pdf_write lib m2) w2)))"
        by (rule write_file_log_mono)
      with a b \<open>r1 = Inr m1\<close> Inr p1 p2 show ?thesis
        by (auto simp add: merge_pdfs_def)
    qed
  qed
qed

lemma after_photo_log_mono:
  assumes "prefix l (io_log w2)"
  shows "prefix l (io_log (snd
    (case id_barcode lib idn of
       Inl e \<Rightarrow> (Raised e, w2)
     | Inr barcode \<Rightarrow>
         (let w3 = debug_print cfg barcode (debug_print cfg s1 w2);
              front_svg = f;
              back_svg = id_back cfg barcode;
              w4 = debug_print cfg back_svg
                     (debug_print cfg s2 (debug_print cfg front_svg (debug_print cfg s3 w3)))
          in case render_pdfs lib cfg idn front_svg back_svg w4 of
               (Some e, w5) \<Rightarrow> (Raised e, w5)
             | (None, w5) \<Rightarrow>
                 (case merge_pdfs lib cfg idn w5 of
                    (Some e, w6) \<Rightarrow> (Raised e, w6)
                  | (None, w6) \<Rightarrow> (Produced, w6))))))"
proof (cases "id_barcode lib idn")
  case (Inl e)
  with assms show ?thesis by simp
next
  case (Inr barcode)
  define w4 where "w4 = debug_print cfg (id_back cfg barcode)
                     (debug_print cfg s2 (debug_print cfg f (debug_print cfg s3
                        (debug_print cfg barcode (debug_print cfg s1 w2)))))"
  have l4: "prefix l (io_log w4)" using assms by (simp add: w4_def)
  obtain r5 w5 where r: "render_pdfs lib cfg idn f (id_back cfg barcode) w4 = (r5, w5)"
    by (cases "render_pdfs lib cfg idn f (id_back cfg barcode) w4")
  have l5: "prefix l (io_log w5)"
    using render_pdfs_log_mono [of w4 lib cfg idn f "id_back cfg barcode"] r l4 by auto
  obtain r6 w6 where m: "merge_pdfs lib cfg idn w5 = (r6, w6)"
    by (cases "merge_pdfs lib cfg idn w5")
  have l6: "prefix l (io_log w6)"
    using merge_pdfs_log_mono [of w5 lib cfg idn] m l5 by auto
  show ?thesis
    using Inr r m l5 l6 by (cases r5; cases r6) (simp_all add: Let_def w4_def [symmetric])
qed

subsection \<open>One replacement\<close>

lemma token_shaped_Cons: "token_shaped t \<Longrightarrow> \<exists>r. t = CHR ''<'' # r \<and> CHR ''<'' \<notin> set r"
  by (cases t) (auto simp: token_shaped_def)

lemma str_replace_Cons_other:
  "old \<noteq> [] \<Longrightarrow> \<not> prefix old (c # s) \<Longrightarrow> str_replace (c # s) old new = c # str_replace s old new"
  by simp

lemma str_replace_prefix:
  assumes "old \<noteq> []"
  shows "str_replace (old @ s) old new = new @ str_replace s old new"
proof -
  obtain c cs where "old @ s = c # cs" using assms by (cases old) auto
  moreover have "prefix old (old @ s)" by simp
  moreover have "drop (length old) (old @ s) = s" by simp
  ultimately show ?thesis using assms by (metis str_replace.simps(2))
qed

lemma str_replace_skip:
  assumes "token_shaped T" and "CHR ''<'' \<notin> set x"
  shows "str_replace (x @ s) T v = x @ str_replace s T v"
  using assms(2)
proof (induction x)
  case Nil
  show ?case by simp
next
  case (Cons c x)
  from token_shaped_Cons [OF assms(1)] obtain r where T: "T = CHR ''<'' # r" by blast
  from Cons.prems have "c \<noteq> CHR ''<''" by auto
  then have "\<not> prefix T (c # x @ s)" using T by simp
  moreover have "T \<noteq> []" using T by simp
  ultimately have "str_replace (c # x @ s) T v = c # str_replace (x @ s) T v"
    by (rule str_replace_Cons_other [rotated])
  with Cons show ?case by simp
qed

lemma str_replace_absent:
  "old \<noteq> [] \<Longrightarrow> \<not> sublist old s \<Longrightarrow> str_replace s old new = s"
  by (induction s) (auto simp: sublist_Cons_right)

subsection \<open>The one-pass rendering\<close>

lemma lookup_prefix_None:
  "lookup_prefix tvs s = None \<longleftrightarrow> (\<forall>t v. (t, v) \<in> set tvs \<longrightarrow> \<not> (t \<noteq> [] \<and> prefix t s))"
proof (induction tvs)
  case Nil
  show ?case by simp
next
  case (Cons a tvs)
  obtain t0 v0 where a: "a = (t0, v0)" by (cases a)
  show ?case unfolding a using Cons by (cases "t0 \<noteq> [] \<and> prefix t0 s") auto
qed

lemma lookup_prefix_append:
  "lookup_prefix (tvs @ tvs') s =
     (case lookup_prefix tvs s of Some x \<Rightarrow> Some x | None \<Rightarrow> lookup_prefix tvs' s)"
  by (induction tvs) auto

lemma lookup_prefix_not_lt:
  assumes "\<forall>t \<in> fst ` set tvs. token_shaped t" and "c \<noteq> CHR ''<''"
  shows "lookup_prefix tvs (c # s) = None"
proof -
  have "\<not> (t \<noteq> [] \<and> prefix t (c # s))" if "(t, v) \<in> set tvs" for t v
  proof -
    from that assms(1) have "token_shaped t" by force
    from token_shaped_Cons [OF this] assms(2) show ?thesis by auto
  qed
  then show ?thesis by (simp add: lookup_prefix_None)
qed

lemma render_Nil: "render [] s = s"
  by (induction s) simp_all

lemma render_skip:
  assumes "\<forall>t \<in> fst ` set tvs. token_shaped t" and "CHR ''<'' \<notin> set x"
  shows "render tvs (x @ s) = x @ render tvs s"
  using assms(2)
proof (induction x)
  case Nil
  show ?case by simp
next
  case (Cons c x)
  then have "c \<noteq> CHR ''<''" by auto
  then have "lookup_prefix tvs (c # x @ s) = None"
    by (rule lookup_prefix_not_lt [OF assms(1)])
  with Cons show ?case by simp
qed

lemma render_token_other:
  assumes "\<forall>t \<in> fst ` set tvs. token_shaped t" and "token_shaped T"
    and "lookup_prefix tvs (T @ s) = None"
  shows "render tvs (T @ s) = T @ render tvs s"
proof -
  from token_shaped_Cons [OF assms(2)] obtain r where T: "T = CHR ''<'' # r" "CHR ''<'' \<notin> set r"
    by blast
  have "render tvs (T @ s) = CHR ''<'' # render tvs (r @ s)"
    using assms(3) T by simp
  also have "render tvs (r @ s) = r @ render tvs s"
    using assms(1) T(2) by (rule render_skip)
  finally show ?thesis using T by simp
qed

lemma not_prefix_render:
  assumes "\<not> prefix q u"
    and "\<forall>k < length q. take k q = take k u \<longrightarrow> lookup_prefix tvs (drop k u) = None"
  shows "\<not> prefix q (render tvs u)"
  using assms
proof (induction q arbitrary: u)
  case Nil
  then show ?case by simp
next
  case (Cons d q)
  show ?case
  proof (cases u)
    case Nil
    then show ?thesis by simp
  next
    case (Cons e u')
    from Cons.prems(2) have "lookup_prefix tvs u = None" by force
    then have r: "render tvs u = e # render tvs u'" using Cons by simp
    show ?thesis
    proof (cases "e = d")
      case False
      with r show ?thesis by simp
    next
      case True
      have a: "\<not> prefix q u'" using Cons.prems(1) Cons True by simp
      have b: "\<forall>k < length q. take k q = take k u' \<longrightarrow> lookup_prefix tvs (drop k u') = None"
      proof (intro allI impI)
        fix k assume "k < length q" "take k q = take k u'"
        then have "Suc k < length (d # q)" "take (Suc k) (d # q) = take (Suc k) u"
          using Cons True by simp_all
        with Cons.prems(2) have "lookup_prefix tvs (drop (Suc k) u) = None" by blast
        then show "lookup_prefix tvs (drop k u') = None" using Cons by simp
      qed
      from Cons.IH [OF a b] r True show ?thesis by simp
    qed
  qed
qed

lemma sublist_suffix_trans: "sublist x u \<Longrightarrow> suffix u s \<Longrightarrow> sublist x s"
  by (auto simp: sublist_def suffix_def) (metis append_assoc)

text \<open>
  The step that carries the claims about rendering: after the pairs \<open>tvs\<close> have been
  rendered in one pass, replacing one more token \<open>T\<close> gives the one-pass rendering
  of \<open>tvs\<close> and \<open>T\<close> together, provided the values of \<open>tvs\<close> hold no \<^verbatim>\<open><\<close> and no
  unfinished \<open>T\<close> stands directly before a token of \<open>tvs\<close>.
\<close>

lemma replace_after_render:
  assumes shaped: "token_shaped T" "\<forall>t \<in> fst ` set tvs. token_shaped t"
    and vals: "\<forall>v' \<in> snd ` set tvs. CHR ''<'' \<notin> set v'"
    and nb: "\<forall>p t'. p \<noteq> [] \<and> strict_prefix p T \<and> t' \<in> fst ` set tvs \<longrightarrow> \<not> sublist (p @ t') s"
  shows "str_replace (render tvs s) T v = render (tvs @ [(T, v)]) s"
  using nb
proof (induction "length s" arbitrary: s rule: less_induct)
  case less
  from token_shaped_Cons [OF shaped(1)] obtain T1 where T: "T = CHR ''<'' # T1" by blast
  then have Tne: "T \<noteq> []" by simp
  have nb_suffix: "\<forall>p t'. p \<noteq> [] \<and> strict_prefix p T \<and> t' \<in> fst ` set tvs \<longrightarrow> \<not> sublist (p @ t') u"
    if "suffix u s" for u
    using less.prems that sublist_suffix_trans by blast
  show ?case
  proof (cases s)
    case Nil
    then show ?thesis using Tne by simp
  next
    case (Cons c cs)
    show ?thesis
    proof (cases "lookup_prefix tvs s")
      case (Some tv)
      obtain t v' where tv: "tv = (t, v')" by (cases tv)
      from lookup_prefix_Some [of tvs s t v'] Some tv
      have mem: "(t, v') \<in> set tvs" and tne: "t \<noteq> []" and pre: "prefix t s" by simp_all
      define s' where "s' = drop (length t) s"
      have len: "length s' < length s" using tne Cons by (cases t) (auto simp: s'_def)
      have suf: "suffix s' s" by (simp add: s'_def suffix_drop)
      have lt_v': "CHR ''<'' \<notin> set v'" using vals mem by force
      have "render tvs s = v' @ render tvs s'"
        using Some tv Cons by (simp add: s'_def)
      then have "str_replace (render tvs s) T v = v' @ str_replace (render tvs s') T v"
        using str_replace_skip [OF shaped(1) lt_v'] by simp
      also have "str_replace (render tvs s') T v = render (tvs @ [(T, v)]) s'"
        using less.hyps [OF len] nb_suffix [OF suf] by blast
      also have "v' @ render (tvs @ [(T, v)]) s' = render (tvs @ [(T, v)]) s"
        using Some tv Cons by (simp add: s'_def lookup_prefix_append)
      finally show ?thesis .
    next
      case None
      show ?thesis
      proof (cases "prefix T s")
        case True
        then obtain s' where s: "s = T @ s'" by (auto simp: prefix_def)
        have len: "length s' < length s" using s Tne by simp
        have suf: "suffix s' s" using s by (simp add: suffix_def)
        have "render tvs s = T @ render tvs s'"
          using render_token_other [OF shaped(2) shaped(1)] None s by simp
        then have "str_replace (render tvs s) T v = v @ str_replace (render tvs s') T v"
          using str_replace_prefix [OF Tne] by simp
        also have "str_replace (render tvs s') T v = render (tvs @ [(T, v)]) s'"
          using less.hyps [OF len] nb_suffix [OF suf] by blast
        also have "v @ render (tvs @ [(T, v)]) s' = render (tvs @ [(T, v)]) s"
        proof -
          have d: "drop (length T) (c # cs) = s'" using s Cons by (metis append_eq_conv_conj)
          have "lookup_prefix (tvs @ [(T, v)]) (c # cs) = Some (T, v)"
            using None True Tne Cons by (simp add: lookup_prefix_append)
          then show ?thesis unfolding Cons by (simp add: d)
        qed
        finally show ?thesis .
      next
        case False
        have len: "length cs < length s" using Cons by simp
        have suf: "suffix cs s" using Cons by (simp add: suffix_def)
        have r: "render tvs s = c # render tvs cs" using None Cons by simp
        have np: "\<not> prefix T (c # render tvs cs)"
        proof (cases "c = CHR ''<''")
          case False
          then show ?thesis using T by simp
        next
          case True
          have a: "\<not> prefix T1 cs" using \<open>\<not> prefix T s\<close> T Cons True by simp
          have b: "\<forall>k < length T1. take k T1 = take k cs \<longrightarrow> lookup_prefix tvs (drop k cs) = None"
          proof (intro allI impI)
            fix k assume k: "k < length T1" and eq: "take k T1 = take k cs"
            show "lookup_prefix tvs (drop k cs) = None"
            proof (rule ccontr)
              assume "lookup_prefix tvs (drop k cs) \<noteq> None"
              then obtain t' w where "lookup_prefix tvs (drop k cs) = Some (t', w)" by auto
              from lookup_prefix_Some [OF this]
              have mem: "t' \<in> fst ` set tvs" and pre: "prefix t' (drop k cs)" by force+
              define p where "p = CHR ''<'' # take k T1"
              have p1: "p \<noteq> []" by (simp add: p_def)
              have p2: "strict_prefix p T"
                using k T by (auto simp: p_def strict_prefix_def take_is_prefix dest: arg_cong [where f = length])
              from pre obtain rest where "drop k cs = t' @ rest" by (auto simp: prefix_def)
              then have "s = p @ t' @ rest"
                using Cons True eq by (simp add: p_def) (metis append_take_drop_id)
              then have "sublist (p @ t') s" by (simp add: sublist_def) (metis append_Nil append_assoc)
              with less.prems p1 p2 mem show False by blast
            qed
          qed
          from not_prefix_render [OF a b] True T show ?thesis by simp
        qed
        have "str_replace (render tvs s) T v = c # str_replace (render tvs cs) T v"
          using r np Tne by simp
        also have "str_replace (render tvs cs) T v = render (tvs @ [(T, v)]) cs"
          using less.hyps [OF len] nb_suffix [OF suf] by blast
        also have "c # render (tvs @ [(T, v)]) cs = render (tvs @ [(T, v)]) s"
          using None False Cons by (simp add: lookup_prefix_append)
        finally show ?thesis .
      qed
    qed
  qed
qed

subsection \<open>Replacements in a row\<close>

lemma replace_in_order_snoc:
  "replace_in_order (tvs @ [(T, v)]) s = str_replace (replace_in_order tvs s) T v"
  by (simp add: replace_in_order_def)

lemma unbroken_mono: "set toks' \<subseteq> set toks \<Longrightarrow> unbroken toks s \<Longrightarrow> unbroken toks' s"
  unfolding unbroken_def by blast

lemma replace_in_order_render:
  assumes "\<forall>t \<in> fst ` set tvs. token_shaped t"
    and "\<forall>v \<in> snd ` set (butlast tvs). CHR ''<'' \<notin> set v"
    and "unbroken (map fst tvs) s"
  shows "replace_in_order tvs s = render tvs s"
  using assms
proof (induction tvs rule: rev_induct)
  case Nil
  show ?case by (simp add: replace_in_order_def render_Nil)
next
  case (snoc x tvs)
  obtain T v where x: "x = (T, v)" by (cases x)
  have vals: "\<forall>v' \<in> snd ` set tvs. CHR ''<'' \<notin> set v'" using snoc.prems(2) by simp
  have "\<forall>v \<in> snd ` set (butlast tvs). CHR ''<'' \<notin> set v"
    using vals by (auto dest: in_set_butlastD)
  moreover have "unbroken (map fst tvs) s"
    using snoc.prems(3) by (rule unbroken_mono [rotated]) auto
  ultimately have ih: "replace_in_order tvs s = render tvs s"
    using snoc.IH snoc.prems(1) by simp
  have nb: "\<forall>p t'. p \<noteq> [] \<and> strict_prefix p T \<and> t' \<in> fst ` set tvs \<longrightarrow> \<not> sublist (p @ t') s"
  proof (intro allI impI, elim conjE)
    fix p t' assume p: "p \<noteq> []" "strict_prefix p T" and t': "t' \<in> fst ` set tvs"
    from p(2) have "p \<in> set (prefixes T)" "p \<noteq> T" by (auto simp: strict_prefix_def)
    moreover have "T \<in> set (map fst (tvs @ [x]))" "t' \<in> set (map fst (tvs @ [x]))"
      using x t' by auto
    ultimately show "\<not> sublist (p @ t') s"
      using snoc.prems(3) p(1) unfolding unbroken_def by blast
  qed
  have "str_replace (render tvs s) T v = render (tvs @ [(T, v)]) s"
    using snoc.prems(1) x vals nb by (intro replace_after_render) auto
  then show ?case by (simp add: x replace_in_order_snoc ih)
qed

lemma lookup_prefix_perm:
  assumes "set tvs = set tvs'" and "apart tvs"
  shows "lookup_prefix tvs x = lookup_prefix tvs' x"
proof (cases "lookup_prefix tvs x")
  case None
  then have "lookup_prefix tvs' x = None" using assms(1) by (simp add: lookup_prefix_None)
  with None show ?thesis by simp
next
  case (Some tv)
  obtain t v where tv: "tv = (t, v)" by (cases tv)
  from lookup_prefix_Some [of tvs x t v] Some tv
  have 1: "(t, v) \<in> set tvs" "t \<noteq> []" "prefix t x" by simp_all
  then have "lookup_prefix tvs' x \<noteq> None" using assms(1) by (auto simp: lookup_prefix_None)
  then obtain t' v' where s': "lookup_prefix tvs' x = Some (t', v')" by auto
  from lookup_prefix_Some [OF this] assms(1)
  have 2: "(t', v') \<in> set tvs" "prefix t' x" by simp_all
  from 1(3) 2(2) have "prefix t t' \<or> prefix t' t" by (rule prefix_same_cases)
  moreover have "prefix t t' \<longrightarrow> (t, v) = (t', v')" "prefix t' t \<longrightarrow> (t', v') = (t, v)"
    using 1(1) 2(1) assms(2) unfolding apart_def by force+
  ultimately have "t = t' \<and> v = v'" by blast
  with Some tv s' show ?thesis by simp
qed

lemma render_perm:
  assumes "set tvs = set tvs'" and "apart tvs"
  shows "render tvs s = render tvs' s"
proof (induction "length s" arbitrary: s rule: less_induct)
  case less
  show ?case
  proof (cases s)
    case Nil
    then show ?thesis by simp
  next
    case (Cons c cs)
    note l = lookup_prefix_perm [OF assms, of s]
    show ?thesis
    proof (cases "lookup_prefix tvs s")
      case None
      with l Cons less.hyps [of cs] show ?thesis by simp
    next
      case (Some tv)
      obtain t v where tv: "tv = (t, v)" by (cases tv)
      from lookup_prefix_Some [of tvs s t v] Some tv have "t \<noteq> []" by simp
      then have "length (drop (length t) s) < length s" using Cons by (cases t) auto
      from less.hyps [OF this] have ih: "render tvs (drop (length t) s) = render tvs' (drop (length t) s)" .
      have a: "lookup_prefix tvs (c # cs) = Some (t, v)" using Some tv Cons by simp
      have b: "lookup_prefix tvs' (c # cs) = Some (t, v)" using Some tv l Cons by simp
      show ?thesis unfolding Cons using ih a b by (simp add: Cons)
    qed
  qed
qed

lemma front_values_apart: "apart (front_values f l y i p)"
  unfolding apart_def front_values_def by simp

lemma front_tokens_shaped: "\<forall>t \<in> fst ` set (front_values f l y i p). token_shaped t"
  by (simp add: front_values_def token_shaped_def)

lemma front_values_tokens: "map fst (front_values f l y i p) = front_tokens"
  by (simp add: front_values_def front_tokens_def)

lemma id_front_in_order:
  "id_front cfg f l y i p = replace_in_order (front_values f l y i p) (template_front cfg)"
  by (simp add: id_front_def replace_in_order_def front_values_def)

lemma id_front_render:
  assumes "CHR ''<'' \<notin> set f" "CHR ''<'' \<notin> set l" "CHR ''<'' \<notin> set y" "CHR ''<'' \<notin> set i"
    and "unbroken front_tokens (template_front cfg)"
  shows "id_front cfg f l y i p = render (front_values f l y i p) (template_front cfg)"
proof -
  have "\<forall>v \<in> snd ` set (butlast (front_values f l y i p)). CHR ''<'' \<notin> set v"
    using assms(1-4) by (simp add: front_values_def)
  then show ?thesis
    unfolding id_front_in_order
    using front_tokens_shaped assms(5)
    by (intro replace_in_order_render) (simp_all add: front_values_tokens)
qed

lemma id_back_render: "id_back cfg b = render [(''<!-- BARCODE -->'', b)] (template_back cfg)"
proof -
  have "str_replace (render [] (template_back cfg)) ''<!-- BARCODE -->'' b =
        render ([] @ [(''<!-- BARCODE -->'', b)]) (template_back cfg)"
    by (rule replace_after_render) (simp_all add: token_shaped_def)
  then show ?thesis by (simp add: id_back_def render_Nil)
qed

lemma id_front_absent:
  assumes "\<forall>t \<in> set front_tokens. \<not> sublist t (template_front cfg)"
  shows "id_front cfg f l y i p = template_front cfg"
  using assms by (simp add: id_front_def front_tokens_def str_replace_absent)

text \<open>
  Values free of \<^verbatim>\<open><\<close> are not enough for the chain to be the one-pass rendering:
  in a broken markup a blank name completes a token that a later step replaces.
\<close>

lemma broken_markup_example:
  "id_front (test_config\<lparr>template_front := ''<!--<!-- NAME -->YEAR -->''\<rparr>)
     [] [] ''2099'' ''S1'' ''JPEG'' = ''2099'' \<and>
   render (front_values [] [] ''2099'' ''S1'' ''JPEG'') ''<!--<!-- NAME -->YEAR -->'' =
     ''<!-- YEAR -->''"
  by (simp add: id_front_def test_config_def front_values_def)

subsection \<open>Evaluation on the concrete inputs\<close>

lemmas test_defs =
  process_row_def Let_def read_file_def header_def debug_print_def print_def
  photo_path_def front_path_def back_path_def out_path_def os_path_join_def join_step_def
  suffix_def id_barcode_def id_front_def id_back_def render_pdfs_def write_file_def
  merge_pdfs_def merger_append_def test_lib_def test_config_def test_world_def

lemma ghost_raises:
  "process_row test_lib test_config test_world ghost =
     (Raised FileNotFoundError, test_world\<lparr>io_log := [Read ''images/2099/p2.jpg'']\<rparr>)"
  by (simp add: test_defs ghost_def)

lemma ada_produced:
  "fst (process_row test_lib test_config test_world ada) = Produced"
  by (simp add: test_defs ada_def)

lemma ada_files:
  "files (snd (process_row test_lib test_config test_world ada)) =
     [''images/2099/p1.jpg'' \<mapsto> ''JPEG'',
      ''out/tmp/S1001-front.pdf'' \<mapsto> ''Ada Lovelace,2099,S1001,JPEG'',
      ''out/tmp/S1001-back.pdf'' \<mapsto> ''[|S1001|]'',
      ''out/S1001.pdf'' \<mapsto> ''Ada Lovelace,2099,S1001,JPEG[|S1001|]'']"
  by (simp add: test_defs ada_def)

lemma ada_run: "process_row test_lib test_config test_world ada = (Produced, ada_world)"
  using ada_produced by (simp add: ada_world_def prod_eq_iff)

lemma ada_world_files:
  "files ada_world =
     [''images/2099/p1.jpg'' \<mapsto> ''JPEG'',
      ''out/tmp/S1001-front.pdf'' \<mapsto> ''Ada Lovelace,2099,S1001,JPEG'',
      ''out/tmp/S1001-back.pdf'' \<mapsto> ''[|S1001|]'',
      ''out/S1001.pdf'' \<mapsto> ''Ada Lovelace,2099,S1001,JPEG[|S1001|]'']"
  unfolding ada_world_def by (rule ada_files)

lemma test_paths:
  "front_path test_config ''S1001'' = ''out/tmp/S1001-front.pdf''"
  "back_path test_config ''S1001'' = ''out/tmp/S1001-back.pdf''"
  "out_path test_config ''S1001'' = ''out/S1001.pdf''"
  "photo_path test_config ''2099'' ''p1'' = ''images/2099/p1.jpg''"
  by (simp_all add: test_defs)

lemma ada_world_writable: "writable ada_world p"
  using process_row_writable [of test_lib test_config test_world ada]
  by (simp add: ada_world_def test_world_def)

lemma alan_facts:
  "alan ! 3 = ada ! 3" "5 \<le> length alan" "alan \<noteq> header" "alan ! 4 \<noteq> []"
  "files ada_world (photo_path test_config (alan ! 2) (alan ! 4)) = Some ''JPEG''"
  "id_barcode test_lib (alan ! 3) = Inr ''|S1001|''"
  "svg2pdf test_lib (id_front test_config (alan ! 0) (alan ! 1) (alan ! 2) (alan ! 3)
      (b64text test_lib ''JPEG'')) = Inr ''Alan Turing,2099,S1001,JPEG''"
  "svg2pdf test_lib (id_back test_config ''|S1001|'') = Inr ''[|S1001|]''"
  "pdf_read test_lib ''Alan Turing,2099,S1001,JPEG'' = Inr [''Alan Turing,2099,S1001,JPEG'']"
  "pdf_read test_lib ''[|S1001|]'' = Inr [''[|S1001|]'']"
  by (simp_all add: alan_def ada_def header_def ada_world_files test_paths)
     (simp_all add: test_lib_def id_barcode_def id_front_def id_back_def test_config_def)

lemma test_front_unbroken: "unbroken front_tokens (template_front test_config)"
  by (simp add: test_config_def) code_simp

section \<open>The claims\<close>

text \<open>
  C1. When the body of the loop raises at one row, the run ends there with that
  error: the result and the world are those of the failing row, whatever rows
  follow it, so no later row is processed and nothing is written for one. Not even
  the closing line is printed. A photo that does not exist is such a failure
  (\<open>missing_photo_raises\<close>); in the example below the row after the failing one
  would have produced a document.
\<close>

theorem failure_aborts_run:
  assumes "process_rows lib cfg w pre = (None, w1)"
    and "process_row lib cfg w1 row = (Raised e, w2)"
  shows "process_rows lib cfg w (pre @ row # post) = (Some e, w2) \<and>
         run lib cfg w (pre @ row # post) = (Some e, w2)"
proof -
  have "process_rows lib cfg w (pre @ row # post) = process_rows lib cfg w1 (row # post)"
    using assms(1) by (rule process_rows_append)
  also have "\<dots> = (Some e, w2)" using assms(2) by simp
  finally show ?thesis by (simp add: run_def)
qed

theorem failure_aborts_run_witness:
  "run test_lib test_config test_world [ghost, ada] =
     (Some FileNotFoundError, test_world\<lparr>io_log := [Read ''images/2099/p2.jpg'']\<rparr>) \<and>
   fst (process_row test_lib test_config test_world ada) = Produced"
proof -
  have a: "process_rows test_lib test_config test_world [] = (None, test_world)" by simp
  from failure_aborts_run [OF a ghost_raises, of "[ada]"] ada_produced show ?thesis by simp
qed

text \<open>
  C2, as amended. The script fills the front template by four replacements in a row
  (NAME, YEAR, ID, PHOTO), each on the result of the one before. When the first name,
  last name, year and identifier hold no \<^verbatim>\<open><\<close> and the front markup is unbroken, the
  result is the one-pass rendering of the specification: every occurrence of each of
  the four tokens in the markup is replaced by its value and the text outside the
  occurrences is untouched. The back template has one token, and its filling is the
  one-pass rendering for every markup and barcode. A markup that holds none of the
  tokens comes back unchanged, and no input makes rendering fail.
\<close>

theorem chained_replace_renders:
  "(CHR ''<'' \<notin> set first_name \<and> CHR ''<'' \<notin> set last_name \<and> CHR ''<'' \<notin> set year \<and>
    CHR ''<'' \<notin> set idn \<and> unbroken front_tokens (template_front cfg) \<longrightarrow>
      id_front cfg first_name last_name year idn image_str =
        render (front_values first_name last_name year idn image_str) (template_front cfg)) \<and>
   id_back cfg barcode = render [(''<!-- BARCODE -->'', barcode)] (template_back cfg) \<and>
   ((\<forall>t \<in> set front_tokens. \<not> sublist t (template_front cfg)) \<longrightarrow>
      id_front cfg first_name last_name year idn image_str = template_front cfg) \<and>
   (\<not> sublist ''<!-- BARCODE -->'' (template_back cfg) \<longrightarrow> id_back cfg barcode = template_back cfg)"
proof -
  have "\<not> sublist ''<!-- BARCODE -->'' (template_back cfg) \<longrightarrow> id_back cfg barcode = template_back cfg"
    by (simp add: id_back_def str_replace_absent)
  then show ?thesis
    using id_front_render [of first_name last_name year idn cfg image_str]
      id_back_render [of cfg barcode]
      id_front_absent [of cfg first_name last_name year idn image_str]
    by blast
qed

theorem chained_replace_renders_witness:
  "id_front test_config ''Ada'' ''Lovelace'' ''2099'' ''S1001'' ''JPEG'' =
     render (front_values ''Ada'' ''Lovelace'' ''2099'' ''S1001'' ''JPEG'')
       (template_front test_config) \<and>
   id_front test_config ''Ada'' ''Lovelace'' ''2099'' ''S1001'' ''JPEG'' =
     ''Ada Lovelace,2099,S1001,JPEG'' \<and>
   id_back test_config ''|S1001|'' = ''[|S1001|]'' \<and>
   id_front plain_config ''Ada'' ''Lovelace'' ''2099'' ''S1001'' ''JPEG'' = ''<svg/>'' \<and>
   id_back plain_config ''|S1001|'' = ''<svg/>''"
proof -
  note t = chained_replace_renders
    [of "''Ada''" "''Lovelace''" "''2099''" "''S1001''" _ "''JPEG''" "''|S1001|''"]
  have a: "id_front test_config ''Ada'' ''Lovelace'' ''2099'' ''S1001'' ''JPEG'' =
     render (front_values ''Ada'' ''Lovelace'' ''2099'' ''S1001'' ''JPEG'')
       (template_front test_config)"
    using t [of test_config] test_front_unbroken by simp
  have n: "\<forall>t \<in> set front_tokens. \<not> sublist t (template_front plain_config)"
    "\<not> sublist ''<!-- BARCODE -->'' (template_back plain_config)"
    by (simp_all add: plain_config_def test_config_def front_tokens_def sublist_code)
  have p: "id_front plain_config ''Ada'' ''Lovelace'' ''2099'' ''S1001'' ''JPEG'' =
      template_front plain_config"
    "id_back plain_config ''|S1001|'' = template_back plain_config"
    using t [of plain_config] n by blast+
  have b: "id_front test_config ''Ada'' ''Lovelace'' ''2099'' ''S1001'' ''JPEG'' =
      ''Ada Lovelace,2099,S1001,JPEG''"
    "id_back test_config ''|S1001|'' = ''[|S1001|]''"
    by (simp_all add: id_front_def id_back_def test_config_def)
  from a b p show ?thesis by (simp add: plain_config_def test_config_def)
qed

text \<open>
  C2 as stated fails when a value holds a token: with the first name
  \<^verbatim>\<open><!-- ID -->\<close>, the NAME occurrence of the markup does not become first name, blank,
  last name; the later ID replacement rewrites the inserted name.
\<close>

theorem chained_replace_collision:
  "id_front collide_config ''<!-- ID -->'' ''L'' ''2099'' ''S1'' ''JPEG'' = ''Hello S1 L'' \<and>
   id_front collide_config ''<!-- ID -->'' ''L'' ''2099'' ''S1'' ''JPEG'' \<noteq>
     ''Hello '' @ (''<!-- ID -->'' @ '' '' @ ''L'') \<and>
   render (front_values ''<!-- ID -->'' ''L'' ''2099'' ''S1'' ''JPEG'') (template_front collide_config)
     = ''Hello <!-- ID --> L''"
  by (simp add: id_front_def collide_config_def test_config_def front_values_def)

text \<open>
  C3, as amended. Values are inserted as they are, with no escaping, and one
  replacement never scans the value it has just inserted. When no value holds a
  \<^verbatim>\<open><\<close> and the front markup is unbroken, the four replacements give the same result
  in every order: any list \<open>tvs\<close> that holds the script's four token-value pairs in
  some order renders the markup as \<open>id_front\<close> does.
\<close>

theorem any_order_same_result:
  "(mset tvs = mset (front_values first_name last_name year idn image_str) \<and>
    CHR ''<'' \<notin> set first_name \<and> CHR ''<'' \<notin> set last_name \<and> CHR ''<'' \<notin> set year \<and>
    CHR ''<'' \<notin> set idn \<and> CHR ''<'' \<notin> set image_str \<and>
    unbroken front_tokens (template_front cfg) \<longrightarrow>
      replace_in_order tvs (template_front cfg) =
        id_front cfg first_name last_name year idn image_str) \<and>
   (t \<noteq> [] \<longrightarrow> str_replace (t @ s) t v = v @ str_replace s t v)"
proof -
  let ?fv = "front_values first_name last_name year idn image_str"
  have "replace_in_order tvs (template_front cfg) = id_front cfg first_name last_name year idn image_str"
    if m: "mset tvs = mset ?fv"
      and v: "CHR ''<'' \<notin> set first_name" "CHR ''<'' \<notin> set last_name" "CHR ''<'' \<notin> set year"
        "CHR ''<'' \<notin> set idn" "CHR ''<'' \<notin> set image_str"
      and u: "unbroken front_tokens (template_front cfg)"
  proof -
    from m have s: "set tvs = set ?fv" by (rule mset_eq_setD)
    have shaped: "\<forall>t \<in> fst ` set tvs. token_shaped t"
      unfolding s by (rule front_tokens_shaped)
    have "\<forall>v \<in> snd ` set tvs. CHR ''<'' \<notin> set v"
      unfolding s using v by (simp add: front_values_def)
    then have vals: "\<forall>v \<in> snd ` set (butlast tvs). CHR ''<'' \<notin> set v"
      by (auto dest: in_set_butlastD)
    have "set (map fst tvs) = set front_tokens"
      using s front_values_tokens [of first_name last_name year idn image_str]
      by (metis set_map)
    with u have ub: "unbroken (map fst tvs) (template_front cfg)"
      by (auto intro: unbroken_mono)
    have "replace_in_order tvs (template_front cfg) = render tvs (template_front cfg)"
      using shaped vals ub by (rule replace_in_order_render)
    also have "\<dots> = render ?fv (template_front cfg)"
      using s [symmetric] front_values_apart by (rule render_perm [symmetric])
    also have "\<dots> = id_front cfg first_name last_name year idn image_str"
      using v(1-4) u by (rule id_front_render [symmetric])
    finally show ?thesis .
  qed
  then show ?thesis using str_replace_prefix [of t s v] by blast
qed

theorem any_order_same_result_witness:
  "replace_in_order (rev (front_values ''Ada'' ''Lovelace'' ''2099'' ''S1001'' ''JPEG''))
     (template_front test_config) =
   id_front test_config ''Ada'' ''Lovelace'' ''2099'' ''S1001'' ''JPEG'' \<and>
   str_replace (''<!-- ID -->'' @ ''!'') ''<!-- ID -->'' ''<!-- ID -->'' = ''<!-- ID -->!''"
proof -
  have "str_replace ''!'' ''<!-- ID -->'' ''<!-- ID -->'' = ''!''" by simp
  then show ?thesis
    using any_order_same_result [of "rev (front_values ''Ada'' ''Lovelace'' ''2099'' ''S1001'' ''JPEG'')"
      "''Ada''" "''Lovelace''" "''2099''" "''S1001''" "''JPEG''" test_config "''<!-- ID -->''" "''!''"
      "''<!-- ID -->''"]
      test_front_unbroken by simp
qed

text \<open>
  C3 as stated fails when a value holds another token: with the first name
  \<^verbatim>\<open><!-- YEAR -->\<close>, the script's order (NAME before YEAR) replaces the token inside
  the inserted name, the reverse order leaves it.
\<close>

theorem order_matters_on_collision:
  "replace_in_order (rev (front_values ''<!-- YEAR -->'' ''L'' ''2099'' ''S1'' ''JPEG''))
     (template_front collide_config) = ''Hello <!-- YEAR --> L'' \<and>
   id_front collide_config ''<!-- YEAR -->'' ''L'' ''2099'' ''S1'' ''JPEG'' = ''Hello 2099 L'' \<and>
   mset (rev (front_values ''<!-- YEAR -->'' ''L'' ''2099'' ''S1'' ''JPEG'')) =
     mset (front_values ''<!-- YEAR -->'' ''L'' ''2099'' ''S1'' ''JPEG'') \<and>
   replace_in_order (rev (front_values ''<!-- YEAR -->'' ''L'' ''2099'' ''S1'' ''JPEG''))
     (template_front collide_config) \<noteq>
   id_front collide_config ''<!-- YEAR -->'' ''L'' ''2099'' ''S1'' ''JPEG''"
  by (simp add: id_front_def collide_config_def test_config_def front_values_def replace_in_order_def)

text \<open>
  C4. A row of at least five cells whose photo cell is empty is skipped: the outcome
  is \<open>Skipped\<close>, the one line printed names the person by first and last name, and
  nothing else happens: no file is changed and no file is opened, for reading or for
  writing. The result does not depend on the libraries.
\<close>

theorem empty_photo_skips:
  assumes "5 \<le> length row" and "row ! 4 = []"
  shows "\<exists>w'. process_row lib cfg w row = (Skipped, w') \<and>
           stdout w' = stdout (debug_print cfg (str_join '', '' row) w) @
             [''Student '' @ row ! 0 @ '' '' @ row ! 1 @ '' does not have a photo. Skipping...''] \<and>
           files w' = files w \<and> io_log w' = io_log w \<and> writable w' = writable w"
proof -
  have "row \<noteq> header" using assms(2) by (auto simp: header_def)
  then show ?thesis using assms by (simp add: process_row_def Let_def)
qed

theorem empty_photo_skips_witness:
  "process_row test_lib test_config test_world [''Fake'', ''Student'', ''2099'', ''S0'', '''']
     = (Skipped,
        test_world\<lparr>stdout := [''Student Fake Student does not have a photo. Skipping...'']\<rparr>)"
  using empty_photo_skips
    [of "[''Fake'', ''Student'', ''2099'', ''S0'', '''']" test_lib test_config test_world]
  by (simp add: test_defs)

text \<open>
  C5. Merging appends the front file's pages, then the back file's pages, to an empty
  merger and writes the result: whenever the two tmp files hold documents with page
  lists \<open>pf\<close> and \<open>pb\<close> and the output can be written, the output file holds the
  document of \<open>pf @ pb\<close>. So after every completed row the output document is the
  document of the front pages followed by the back pages, each in its own order, and
  its page count is the sum of the two.
\<close>

theorem merge_front_then_back:
  "(files w (front_path cfg idn) = Some fdoc \<and> pdf_read lib fdoc = Inr pf \<and>
    files w (back_path cfg idn) = Some bdoc \<and> pdf_read lib bdoc = Inr pb \<and>
    writable w (out_path cfg idn) \<longrightarrow>
      (\<exists>w'. merge_pdfs lib cfg idn w = (None, w') \<and>
            files w' (out_path cfg idn) = Some (pdf_write lib (pf @ pb)))) \<and>
   (process_row lib cfg w row = (Produced, wr) \<longrightarrow>
      (\<exists>fd bd fs bs. files wr (front_path cfg (row ! 3)) = Some fd \<and> pdf_read lib fd = Inr fs \<and>
         files wr (back_path cfg (row ! 3)) = Some bd \<and> pdf_read lib bd = Inr bs \<and>
         files wr (out_path cfg (row ! 3)) = Some (pdf_write lib (fs @ bs)) \<and>
         length (fs @ bs) = length fs + length bs \<and>
         take (length fs) (fs @ bs) = fs \<and> drop (length fs) (fs @ bs) = bs))"
proof -
  have a: "files w (front_path cfg idn) = Some fdoc \<and> pdf_read lib fdoc = Inr pf \<and>
    files w (back_path cfg idn) = Some bdoc \<and> pdf_read lib bdoc = Inr pb \<and>
    writable w (out_path cfg idn) \<longrightarrow>
      (\<exists>w'. merge_pdfs lib cfg idn w = (None, w') \<and>
            files w' (out_path cfg idn) = Some (pdf_write lib (pf @ pb)))"
    by (simp add: merge_pdfs_def merger_append_def read_file_def write_file_def)
  have b: "process_row lib cfg w row = (Produced, wr) \<longrightarrow>
      (\<exists>fd bd fs bs. files wr (front_path cfg (row ! 3)) = Some fd \<and> pdf_read lib fd = Inr fs \<and>
         files wr (back_path cfg (row ! 3)) = Some bd \<and> pdf_read lib bd = Inr bs \<and>
         files wr (out_path cfg (row ! 3)) = Some (pdf_write lib (fs @ bs)) \<and>
         length (fs @ bs) = length fs + length bs \<and>
         take (length fs) (fs @ bs) = fs \<and> drop (length fs) (fs @ bs) = bs)"
  proof
    assume "process_row lib cfg w row = (Produced, wr)"
    from process_row_Produced [OF this]
    obtain photo barcode fd bd fs bs where
      r: "pdf_read lib fd = Inr fs" "pdf_read lib bd = Inr bs"
      and f: "files wr = (files w)(front_path cfg (row ! 3) \<mapsto> fd, back_path cfg (row ! 3) \<mapsto> bd,
                         out_path cfg (row ! 3) \<mapsto> pdf_write lib (fs @ bs))"
      by blast
    have "files wr (front_path cfg (row ! 3)) = Some fd"
         "files wr (back_path cfg (row ! 3)) = Some bd"
         "files wr (out_path cfg (row ! 3)) = Some (pdf_write lib (fs @ bs))"
      using f by (simp_all add: paths_distinct)
    with r show "\<exists>fd bd fs bs. files wr (front_path cfg (row ! 3)) = Some fd \<and> pdf_read lib fd = Inr fs \<and>
         files wr (back_path cfg (row ! 3)) = Some bd \<and> pdf_read lib bd = Inr bs \<and>
         files wr (out_path cfg (row ! 3)) = Some (pdf_write lib (fs @ bs)) \<and>
         length (fs @ bs) = length fs + length bs \<and>
         take (length fs) (fs @ bs) = fs \<and> drop (length fs) (fs @ bs) = bs"
      by auto
  qed
  from a b show ?thesis by blast
qed

theorem merge_front_then_back_witness:
  "(\<exists>w'. merge_pdfs test_lib test_config ''S1001'' ada_world = (None, w') \<and>
         files w' ''out/S1001.pdf'' = Some ''Ada Lovelace,2099,S1001,JPEG[|S1001|]'') \<and>
   (\<exists>fs bs. files ada_world ''out/S1001.pdf'' = Some (pdf_write test_lib (fs @ bs)) \<and>
         fs = [''Ada Lovelace,2099,S1001,JPEG''] \<and> bs = [''[|S1001|]''] \<and>
         length (fs @ bs) = 2)"
proof -
  note t = merge_front_then_back [where w = ada_world and cfg = test_config and idn = "''S1001''"
      and lib = test_lib and fdoc = "''Ada Lovelace,2099,S1001,JPEG''"
      and pf = "[''Ada Lovelace,2099,S1001,JPEG'']" and bdoc = "''[|S1001|]''"
      and pb = "[''[|S1001|]'']"]
  note u = merge_front_then_back [where w = test_world and cfg = test_config and lib = test_lib
      and row = ada and wr = ada_world]
  have h: "files ada_world (front_path test_config ''S1001'') = Some ''Ada Lovelace,2099,S1001,JPEG'' \<and>
      pdf_read test_lib ''Ada Lovelace,2099,S1001,JPEG'' = Inr [''Ada Lovelace,2099,S1001,JPEG''] \<and>
      files ada_world (back_path test_config ''S1001'') = Some ''[|S1001|]'' \<and>
      pdf_read test_lib ''[|S1001|]'' = Inr [''[|S1001|]''] \<and>
      writable ada_world (out_path test_config ''S1001'')"
    by (simp add: ada_world_files test_paths ada_world_writable) (simp add: test_lib_def)
  have c: "pdf_write test_lib ps = concat ps" for ps
    by (simp add: test_lib_def)
  have r: "pdf_read test_lib bs = Inr [bs]" for bs
    by (simp add: test_lib_def)
  from t h have "\<exists>w'. merge_pdfs test_lib test_config ''S1001'' ada_world = (None, w') \<and>
      files w' (out_path test_config ''S1001'') =
        Some (pdf_write test_lib ([''Ada Lovelace,2099,S1001,JPEG''] @ [''[|S1001|]'']))"
    by blast
  then have 1: "\<exists>w'. merge_pdfs test_lib test_config ''S1001'' ada_world = (None, w') \<and>
      files w' ''out/S1001.pdf'' = Some ''Ada Lovelace,2099,S1001,JPEG[|S1001|]''"
    by (simp add: c test_paths)
  from u ada_run obtain fd bd fs bs where
    "files ada_world (front_path test_config (ada ! 3)) = Some fd" "pdf_read test_lib fd = Inr fs"
    "files ada_world (back_path test_config (ada ! 3)) = Some bd" "pdf_read test_lib bd = Inr bs"
    "files ada_world (out_path test_config (ada ! 3)) = Some (pdf_write test_lib (fs @ bs))"
    by blast
  then have 2: "\<exists>fs bs. files ada_world ''out/S1001.pdf'' = Some (pdf_write test_lib (fs @ bs)) \<and>
         fs = [''Ada Lovelace,2099,S1001,JPEG''] \<and> bs = [''[|S1001|]''] \<and> length (fs @ bs) = 2"
    by (auto simp: ada_def test_paths ada_world_files r)
  from 1 2 show ?thesis by blast
qed

text \<open>
  C6. A row is taken for the header exactly when it equals the list of the five
  expected labels: same length, and each cell equal to its label as a string. The
  header itself is passed over with nothing done but the debug line. A row that
  differs from the header only in letter case is therefore processed as data; the
  example is the all-lower-case header, whose photo is looked up and not found.
\<close>

theorem header_row_exact_match:
  "(fst (process_row lib cfg w row) = HeaderRow) = (row = header) \<and>
   process_row lib cfg w header = (HeaderRow, debug_print cfg (str_join '', '' header) w) \<and>
   (row = header) =
     (length row = 5 \<and> row ! 0 = ''First'' \<and> row ! 1 = ''Last'' \<and> row ! 2 = ''Year'' \<and>
      row ! 3 = ''ID Number'' \<and> row ! 4 = ''Photo Number'')"
proof -
  have a: "process_row lib cfg w header = (HeaderRow, debug_print cfg (str_join '', '' header) w)"
    by (simp add: process_row_def Let_def)
  have b: "(fst (process_row lib cfg w row) = HeaderRow) = (row = header)"
    using process_row_HeaderRow [of lib cfg w row] a by auto
  have c: "(row = header) =
     (length row = 5 \<and> row ! 0 = ''First'' \<and> row ! 1 = ''Last'' \<and> row ! 2 = ''Year'' \<and>
      row ! 3 = ''ID Number'' \<and> row ! 4 = ''Photo Number'')"
    unfolding header_def
    by (auto simp: list_eq_iff_nth_eq less_Suc_eq numeral_eq_Suc)
  from a b c show ?thesis by blast
qed

theorem header_row_exact_match_witness:
  "[''first'', ''last'', ''year'', ''id number'', ''photo number''] \<noteq> header \<and>
   fst (process_row test_lib test_config test_world
          [''first'', ''last'', ''year'', ''id number'', ''photo number'']) \<noteq> HeaderRow \<and>
   process_row test_lib test_config test_world
          [''first'', ''last'', ''year'', ''id number'', ''photo number''] =
     (Raised FileNotFoundError,
      test_world\<lparr>io_log := [Read ''images/year/photo number.jpg'']\<rparr>) \<and>
   process_row test_lib test_config test_world header = (HeaderRow, test_world)"
  using header_row_exact_match [of test_lib test_config test_world
      "[''first'', ''last'', ''year'', ''id number'', ''photo number'']"]
  by (simp add: test_defs)

text \<open>
  C8. Two rows with the same identifier write the same output path, and nothing
  checks whether it exists: if the first row completed, and every step of the second
  succeeds (its photo is there, the libraries accept its data), then the second row
  completes too, and the output file, which held the first row's document, now holds
  the document made from the second row's front and back sides.
\<close>

theorem same_id_overwrites:
  assumes "process_row lib cfg wa ra = (Produced, wb)"
    and "rb ! 3 = ra ! 3" "5 \<le> length rb" "rb \<noteq> header" "rb ! 4 \<noteq> []"
    and "files wb (photo_path cfg (rb ! 2) (rb ! 4)) = Some photo"
    and "id_barcode lib (rb ! 3) = Inr barcode"
    and "svg2pdf lib (id_front cfg (rb ! 0) (rb ! 1) (rb ! 2) (rb ! 3) (b64text lib photo)) = Inr fdoc"
    and "svg2pdf lib (id_back cfg barcode) = Inr bdoc"
    and "pdf_read lib fdoc = Inr pf" "pdf_read lib bdoc = Inr pb"
  shows "\<exists>d1 wc. files wb (out_path cfg (ra ! 3)) = Some d1 \<and>
           process_row lib cfg wb rb = (Produced, wc) \<and>
           files wc (out_path cfg (ra ! 3)) = Some (pdf_write lib (pf @ pb))"
proof -
  from process_row_Produced [OF assms(1)]
  obtain d1 where d1: "files wb (out_path cfg (ra ! 3)) = Some d1" by auto
  have wr1: "writable wa (front_path cfg (ra ! 3)) \<and> writable wa (back_path cfg (ra ! 3)) \<and>
         writable wa (out_path cfg (ra ! 3))"
    using assms(1) by (rule process_row_Produced_writable)
  have "writable wb = writable wa"
    using process_row_writable [of lib cfg wa ra] assms(1) by simp
  with wr1 assms(2) have wr2: "writable wb (front_path cfg (rb ! 3))"
    "writable wb (back_path cfg (rb ! 3))" "writable wb (out_path cfg (rb ! 3))"
    by simp_all
  from process_row_ProducedI [OF assms(3-11) wr2]
  obtain wc where "process_row lib cfg wb rb = (Produced, wc)"
    and "files wc = (files wb)(front_path cfg (rb ! 3) \<mapsto> fdoc, back_path cfg (rb ! 3) \<mapsto> bdoc,
                         out_path cfg (rb ! 3) \<mapsto> pdf_write lib (pf @ pb))"
    by blast
  with d1 assms(2) show ?thesis by simp
qed

theorem same_id_overwrites_witness:
  "files ada_world ''out/S1001.pdf'' = Some ''Ada Lovelace,2099,S1001,JPEG[|S1001|]'' \<and>
   (\<exists>wc. process_row test_lib test_config ada_world alan = (Produced, wc) \<and>
      files wc ''out/S1001.pdf'' = Some ''Alan Turing,2099,S1001,JPEG[|S1001|]'')"
proof -
  have c: "pdf_write test_lib ps = concat ps" for ps
    by (simp add: test_lib_def)
  have o: "out_path test_config (ada ! 3) = ''out/S1001.pdf''"
    by (simp add: ada_def test_paths)
  from same_id_overwrites [OF ada_run alan_facts] show ?thesis
    by (simp add: c o ada_world_files)
qed

text \<open>
  C9. Rows with the wrong column count are not validated: every row that is not the
  header and has fewer than five cells makes the body read \<^verbatim>\<open>row[4]\<close> past the end of
  the row, and the row ends with the uncaught \<^verbatim>\<open>IndexError\<close>. Nothing but the debug
  line has happened by then. The two-cell row of the example is such a row.
\<close>

theorem short_row_index_error:
  "row \<noteq> header \<Longrightarrow> length row < 5 \<Longrightarrow>
   process_row lib cfg w row = (Raised IndexError, debug_print cfg (str_join '', '' row) w)"
  by (simp add: process_row_def Let_def)

theorem short_row_index_error_witness:
  "[''Ada'', ''Lovelace''] \<noteq> header \<and> length [''Ada'', ''Lovelace''] < (5::nat) \<and>
   process_row test_lib test_config test_world [''Ada'', ''Lovelace''] =
     (Raised IndexError, test_world)"
  using short_row_index_error [of "[''Ada'', ''Lovelace'']" test_lib test_config test_world]
  by (simp add: header_def debug_print_def test_config_def)

text \<open>
  C10. Only the empty string skips a row. A row of at least five cells that is not
  the header and whose photo cell is not empty (a cell of blanks included) is not
  skipped: the next thing the run does is open the file
  \<open>photo_path cfg (row ! 2) (row ! 4)\<close>, that is
  \<^verbatim>\<open>os.path.join(images_path, row[2], row[4] + '.jpg')\<close>, and when no such file exists
  the row ends with \<^verbatim>\<open>FileNotFoundError\<close>. For relative, non-empty components that
  path is \<^verbatim>\<open><images_path>/<year>/<photo>.jpg\<close> (\<open>photo_path_plain\<close>). The example has
  a photo cell of one blank.
\<close>

theorem nonempty_photo_not_skipped:
  assumes "5 \<le> length row" "row \<noteq> header" "row ! 4 \<noteq> []"
  shows "fst (process_row lib cfg w row) \<noteq> Skipped \<and>
         prefix (io_log w @ [Read (photo_path cfg (row ! 2) (row ! 4))])
                (io_log (snd (process_row lib cfg w row))) \<and>
         (files w (photo_path cfg (row ! 2) (row ! 4)) = None \<longrightarrow>
            fst (process_row lib cfg w row) = Raised FileNotFoundError)"
proof -
  have a: "fst (process_row lib cfg w row) \<noteq> Skipped"
    using assms
    by (auto simp: process_row_def Let_def read_file_def
        split: sum.splits option.splits prod.splits)
  have b: "files w (photo_path cfg (row ! 2) (row ! 4)) = None \<longrightarrow>
            fst (process_row lib cfg w row) = Raised FileNotFoundError"
    using assms by (simp add: process_row_def Let_def read_file_def)
  have c: "prefix (io_log w @ [Read (photo_path cfg (row ! 2) (row ! 4))])
                (io_log (snd (process_row lib cfg w row)))"
  proof (cases "files w (photo_path cfg (row ! 2) (row ! 4))")
    case None
    with assms show ?thesis by (simp add: process_row_def Let_def read_file_def)
  next
    case (Some photo)
    show ?thesis
      using assms Some unfolding process_row_def Let_def read_file_def
      apply simp
      apply (rule after_photo_log_mono [unfolded Let_def])
      apply simp
      done
  qed
  from a b c show ?thesis by blast
qed

theorem nonempty_photo_not_skipped_witness:
  "process_row test_lib test_config test_world [''Ada'', ''Lovelace'', ''2099'', ''S1001'', '' '']
     = (Raised FileNotFoundError, test_world\<lparr>io_log := [Read ''images/2099/ .jpg'']\<rparr>) \<and>
   photo_path test_config ''2099'' '' '' = ''images/2099/ .jpg''"
  using nonempty_photo_not_skipped
    [of "[''Ada'', ''Lovelace'', ''2099'', ''S1001'', '' '']" test_lib test_config test_world]
  by (simp add: test_defs)

end
